theory Spec2Isabelle
  imports Complex_Main "HOL-Library.Word" "HOL-Library.Sublist"
begin

section \<open>JavaScript strings\<close>

text \<open>
  A JavaScript string is a sequence of 16-bit code units; \<open>length\<close>, \<open>indexOf\<close>,
  \<open>slice\<close> and the regular expressions of the source (none has the \<open>u\<close> flag)
  all count and compare code units.  String literals of the source are written with
  \<open>js\<close>, which maps each (ASCII) character of the literal to its code unit.
\<close>

type_synonym code_unit = "16 word"
type_synonym jsstring = "code_unit list"

definition js :: "string \<Rightarrow> jsstring" where
  "js s = map (\<lambda>c. word_of_nat (of_char c)) s"

text \<open>
  The code units that \<open>String.prototype.trim\<close> removes and that \<open>\s\<close> matches:
  WhiteSpace (TAB, VT, FF, SP, NBSP, ZWNBSP and the category Zs) and LineTerminator
  (LF, CR, LS, PS).
\<close>

definition isWhiteSpace :: "code_unit \<Rightarrow> bool" where
  "isWhiteSpace c \<longleftrightarrow>
     c = 0x0009 \<or> c = 0x000A \<or> c = 0x000B \<or> c = 0x000C \<or> c = 0x000D \<or> c = 0x0020 \<or>
     c = 0x00A0 \<or> c = 0x1680 \<or> (0x2000 \<le> c \<and> c \<le> 0x200A) \<or> c = 0x2028 \<or>
     c = 0x2029 \<or> c = 0x202F \<or> c = 0x205F \<or> c = 0x3000 \<or> c = 0xFEFF"

text \<open>\<open>\d\<close>: the ten ASCII digits.\<close>

definition isDigit :: "code_unit \<Rightarrow> bool" where
  "isDigit c \<longleftrightarrow> 0x30 \<le> c \<and> c \<le> 0x39"

text \<open>\<open>s.trim()\<close>\<close>

definition trim :: "jsstring \<Rightarrow> jsstring" where
  "trim s = rev (dropWhile isWhiteSpace (rev (dropWhile isWhiteSpace s)))"

text \<open>\<open>text.split('\n')\<close>: always at least one piece; the separator is dropped.\<close>

fun split_newline :: "jsstring \<Rightarrow> jsstring list" where
  "split_newline [] = [[]]"
| "split_newline (c # cs) =
     (if c = 0x0A then [] # split_newline cs
      else (case split_newline cs of
              [] \<Rightarrow> [[c]]
            | l # ls \<Rightarrow> (c # l) # ls))"

text \<open>\<open>parts.join(sep)\<close>\<close>

fun join :: "jsstring \<Rightarrow> jsstring list \<Rightarrow> jsstring" where
  "join sep [] = []"
| "join sep [x] = x"
| "join sep (x # y # ys) = x @ sep @ join sep (y # ys)"

text \<open>\<open>xs.slice(a, b)\<close> for \<open>0 \<le> a \<le> b\<close>, on arrays and on strings.\<close>

definition slice_js :: "nat \<Rightarrow> nat \<Rightarrow> 'a list \<Rightarrow> 'a list" where
  "slice_js a b xs = take (b - a) (drop a xs)"

text \<open>\<open>a || b\<close> on strings: the empty string is falsy.\<close>

definition or_else :: "jsstring \<Rightarrow> jsstring \<Rightarrow> jsstring" where
  "or_else a b = (if a = [] then b else a)"

text \<open>\<open>text.indexOf(t)\<close>, with \<open>None\<close> for \<open>-1\<close>.\<close>

fun indexOf :: "jsstring \<Rightarrow> jsstring \<Rightarrow> nat option" where
  "indexOf [] t = (if t = [] then Some 0 else None)"
| "indexOf (c # cs) t =
     (if prefix t (c # cs) then Some 0 else map_option Suc (indexOf cs t))"

section \<open>Regular expressions of the source\<close>

text \<open>
  Both regular expressions of the enrichment step are sequences of quantified
  single-character matchers, with one capture group.  A pattern is therefore a list of
  atoms (a character set and a quantifier) and the range of atoms that the group
  encloses.  Matching follows the backtracking order of ECMAScript: a greedy
  quantifier tries the largest number of repetitions first, a lazy one the smallest;
  the first start position at which the whole sequence matches wins.
\<close>

datatype quantifier = Greedy nat "nat option" | Lazy nat "nat option"

type_synonym atom = "(code_unit \<Rightarrow> bool) \<times> quantifier"

record pattern =
  atoms :: "atom list"
  group_from :: nat
  group_to :: nat

definition upper_bound :: "nat option \<Rightarrow> nat \<Rightarrow> nat" where
  "upper_bound hi avail = (case hi of None \<Rightarrow> avail | Some h \<Rightarrow> min h avail)"

text \<open>
  The repetition counts of one atom, in the order in which backtracking tries them,
  when \<open>avail\<close> characters of the set are at the current position.
\<close>

fun candidates :: "quantifier \<Rightarrow> nat \<Rightarrow> nat list" where
  "candidates (Greedy lo hi) avail = rev [lo ..< Suc (upper_bound hi avail)]"
| "candidates (Lazy lo hi) avail = [lo ..< Suc (upper_bound hi avail)]"

text \<open>
  \<open>match_seq as s\<close>: the number of characters each atom consumes in the first
  successful match of the sequence \<open>as\<close> at the beginning of \<open>s\<close>.
\<close>

fun match_seq :: "atom list \<Rightarrow> jsstring \<Rightarrow> nat list option"
  and try_counts :: "atom list \<Rightarrow> jsstring \<Rightarrow> nat list \<Rightarrow> nat list option" where
  "match_seq [] s = Some []"
| "match_seq (a # as) s =
     try_counts as s (candidates (snd a) (length (takeWhile (fst a) s)))"
| "try_counts as s [] = None"
| "try_counts as s (k # ks) =
     (case match_seq as (drop k s) of
        Some r \<Rightarrow> Some (k # r)
      | None \<Rightarrow> try_counts as s ks)"

text \<open>
  \<open>regex_exec\<close>: the leftmost start position with a match, the position counted
  from \<open>i\<close>.
\<close>

fun regex_exec :: "atom list \<Rightarrow> nat \<Rightarrow> jsstring \<Rightarrow> (nat \<times> nat list) option" where
  "regex_exec as i [] = map_option (Pair i) (match_seq as [])"
| "regex_exec as i (c # cs) =
     (case match_seq as (c # cs) of
        Some r \<Rightarrow> Some (i, r)
      | None \<Rightarrow> regex_exec as (Suc i) cs)"

text \<open>\<open>s.match(re)[1]\<close> for a regular expression without the \<open>g\<close> flag.\<close>

definition match_group1 :: "pattern \<Rightarrow> jsstring \<Rightarrow> jsstring option" where
  "match_group1 p s =
     (case regex_exec (atoms p) 0 s of
        None \<Rightarrow> None
      | Some (i, ks) \<Rightarrow>
          Some (slice_js (i + sum_list (take (group_from p) ks))
                      (i + sum_list (take (group_to p) ks)) s))"

text \<open>
  What it means for a sequence of atoms to match at the beginning of \<open>s\<close> with the
  repetition counts \<open>ks\<close>, whatever the order of the search: every atom takes
  characters of its set, as many as its quantifier allows.
\<close>

fun in_bounds :: "quantifier \<Rightarrow> nat \<Rightarrow> bool" where
  "in_bounds (Greedy lo hi) k = (lo \<le> k \<and> (case hi of None \<Rightarrow> True | Some h \<Rightarrow> k \<le> h))"
| "in_bounds (Lazy lo hi) k = (lo \<le> k \<and> (case hi of None \<Rightarrow> True | Some h \<Rightarrow> k \<le> h))"

fun valid_counts :: "atom list \<Rightarrow> jsstring \<Rightarrow> nat list \<Rightarrow> bool" where
  "valid_counts [] s ks = (ks = [])"
| "valid_counts (a # as) s [] = False"
| "valid_counts (a # as) s (k # ks) =
     (k \<le> length s \<and> list_all (fst a) (take k s) \<and> in_bounds (snd a) k \<and>
      valid_counts as (drop k s) ks)"

definition once :: "(code_unit \<Rightarrow> bool) \<Rightarrow> atom" where
  "once cs = (cs, Greedy 1 (Some 1))"

definition opt :: "(code_unit \<Rightarrow> bool) \<Rightarrow> atom" where
  "opt cs = (cs, Greedy 0 (Some 1))"

text \<open>
  A letter under the \<open>i\<close> flag (no \<open>u\<close> flag): the two ASCII cases only, since
  canonicalisation never maps a non-ASCII code unit to an ASCII one.
\<close>

definition ci :: "code_unit \<Rightarrow> code_unit \<Rightarrow> code_unit \<Rightarrow> bool" where
  "ci up lo c \<longleftrightarrow> c = up \<or> c = lo"

definition chr :: "code_unit \<Rightarrow> code_unit \<Rightarrow> bool" where
  "chr x c \<longleftrightarrow> c = x"

text \<open>\<open>[+\d\s()-]\<close>\<close>

definition phone_char :: "code_unit \<Rightarrow> bool" where
  "phone_char c \<longleftrightarrow>
     c = 0x2B \<or> isDigit c \<or> isWhiteSpace c \<or> c = 0x28 \<or> c = 0x29 \<or> c = 0x2D"

text \<open>\<open>[-.\s]\<close>\<close>

definition sep_char :: "code_unit \<Rightarrow> bool" where
  "sep_char c \<longleftrightarrow> c = 0x2D \<or> c = 0x2E \<or> isWhiteSpace c"

text \<open>\<open>/Phone:\s*([+\d\s()-]{8,})/i\<close>\<close>

definition labeled_re :: pattern where
  "labeled_re =
     \<lparr> atoms = [once (ci 0x50 0x70), once (ci 0x48 0x68), once (ci 0x4F 0x6F),
                once (ci 0x4E 0x6E), once (ci 0x45 0x65), once (chr 0x3A),
                (isWhiteSpace, Greedy 0 None),
                (phone_char, Greedy 8 None)],
       group_from = 7, group_to = 8 \<rparr>"

text \<open>\<open>/(\+\d{1,3}[-.\s]?\(?\d{1,4}?\)?[-.\s]?\d{1,4}[-.\s]?\d{1,9})/\<close>\<close>

definition bare_re :: pattern where
  "bare_re =
     \<lparr> atoms = [once (chr 0x2B), (isDigit, Greedy 1 (Some 3)), opt sep_char,
                opt (chr 0x28), (isDigit, Lazy 1 (Some 4)), opt (chr 0x29),
                opt sep_char, (isDigit, Greedy 1 (Some 4)), opt sep_char,
                (isDigit, Greedy 1 (Some 9))],
       group_from = 0, group_to = 10 \<rparr>"

text \<open>
  Reading the two expressions independently of the matcher.  A pattern occurs at
  position \<open>i\<close> of \<open>s\<close> when its atoms match there with some repetition counts.  A
  label is the six characters \<open>Phone:\<close> in either case.  The characters that the
  second expression can consume are \<open>+\<close>, digits, separators and parentheses.
\<close>

definition occurs_at :: "pattern \<Rightarrow> jsstring \<Rightarrow> nat \<Rightarrow> bool" where
  "occurs_at p s i \<longleftrightarrow> i \<le> length s \<and> (\<exists>ks. valid_counts (atoms p) (drop i s) ks)"

definition label_letters :: "(code_unit \<times> code_unit) list" where
  "label_letters =
     [(0x50, 0x70), (0x48, 0x68), (0x4F, 0x6F), (0x4E, 0x6E), (0x45, 0x65), (0x3A, 0x3A)]"

definition is_label :: "jsstring \<Rightarrow> bool" where
  "is_label l \<longleftrightarrow> list_all2 (\<lambda>c (up, lo). c = up \<or> c = lo) l label_letters"

definition bare_char :: "code_unit \<Rightarrow> bool" where
  "bare_char c \<longleftrightarrow> c = 0x2B \<or> isDigit c \<or> sep_char c \<or> c = 0x28 \<or> c = 0x29"

fun min_count :: "quantifier \<Rightarrow> nat" where
  "min_count (Greedy lo hi) = lo"
| "min_count (Lazy lo hi) = lo"

text \<open>
  A labeled number in \<open>w\<close>: a label, optional white space, and then at least eight
  characters of \<open>[+\d\s()-]\<close>.  A bare number: a piece of \<open>w\<close> that begins with \<open>+\<close>,
  has at least five characters, all of them ones the second expression can consume.
\<close>

definition labeled_number :: "jsstring \<Rightarrow> jsstring \<Rightarrow> bool" where
  "labeled_number w g \<longleftrightarrow>
     (\<exists>pre lab ws post. w = pre @ lab @ ws @ g @ post \<and> is_label lab \<and>
        list_all isWhiteSpace ws \<and> list_all phone_char g \<and> 8 \<le> length g)"

definition bare_number :: "jsstring \<Rightarrow> jsstring \<Rightarrow> bool" where
  "bare_number w g \<longleftrightarrow>
     (\<exists>pre post. w = pre @ g @ post) \<and> hd g = 0x2B \<and> list_all bare_char g \<and> 5 \<le> length g"

section \<open>Data model (types.ts)\<close>

record maps_info =
  uri :: "jsstring option"
  title :: "jsstring option"
  phoneNumber :: "jsstring option"
  address :: "jsstring option"
  placeAnswerSources :: "jsstring list list option"

record GroundingChunk =
  maps :: "maps_info option"

record DishAnalysisResult =
  dishName :: jsstring
  description :: jsstring
  groundingChunks :: "GroundingChunk list"
  rawText :: jsstring

datatype AppState = IDLE | CAPTURING | ANALYZING | RESULTS | ERROR

text \<open>Latitude and longitude are only stored and passed on; \<open>real\<close> stands for the number type.\<close>

record LocationData =
  latitude :: real
  longitude :: real

text \<open>An \<open>Error\<close> object with its \<open>message\<close>; \<open>URIError\<close> is what \<open>encodeURIComponent\<close> throws.\<close>

datatype js_error = Error jsstring | URIError

section \<open>The analysis client (AIService.identifyDishAndFindPlaces)\<close>

text \<open>
  What the client reads of the service's response: \<open>response.text\<close> and
  \<open>response.candidates?.[0]?.groundingMetadata?.groundingChunks\<close>, either of which
  may be missing.
\<close>

record response =
  resp_text :: "jsstring option"
  candidateChunks :: "GroundingChunk list option"

definition fallback_text :: jsstring where
  "fallback_text = js ''I couldn't identify the dish.''"

definition unknown_dish :: jsstring where
  "unknown_dish = js ''Unknown Dish''"

definition generic_description :: jsstring where
  "generic_description = js ''Delicious culinary creation identified.''"

text \<open>\<open>response.text || "I couldn't identify the dish."\<close>\<close>

definition response_text :: "response \<Rightarrow> jsstring" where
  "response_text r = (case resp_text r of None \<Rightarrow> fallback_text | Some t \<Rightarrow> or_else t fallback_text)"

text \<open>\<open>text.split('\n').filter(l => l.trim().length > 0)\<close>\<close>

definition nonblank_lines :: "jsstring \<Rightarrow> jsstring list" where
  "nonblank_lines t = filter (\<lambda>l. length (trim l) > 0) (split_newline t)"

text \<open>\<open>l.replace(/[*#]/g, '')\<close>\<close>

definition strip_markers :: "jsstring \<Rightarrow> jsstring" where
  "strip_markers l = filter (\<lambda>c. c \<noteq> 0x2A \<and> c \<noteq> 0x23) l"


text \<open>\<open>lines[0]?.replace(/[*#]/g, '').trim() || "Unknown Dish"\<close>\<close>

definition parse_dishName :: "jsstring list \<Rightarrow> jsstring" where
  "parse_dishName lines =
     (case lines of
        [] \<Rightarrow> unknown_dish
      | l # _ \<Rightarrow> or_else (trim (strip_markers l)) unknown_dish)"

text \<open>\<open>lines.slice(1, 4).join(' ').trim() || "Delicious culinary creation identified."\<close>\<close>

definition parse_description :: "jsstring list \<Rightarrow> jsstring" where
  "parse_description lines =
     or_else (trim (join (js '' '') (slice_js 1 4 lines))) generic_description"

text \<open>
  \<open>snippet.match(/Phone:.../i) || snippet.match(/(\+\d{1,3}...)/)\<close>: a match array is
  truthy, so the second expression is searched only when the first does not match.
\<close>

definition phoneMatch :: "jsstring \<Rightarrow> jsstring option" where
  "phoneMatch snippet =
     (case match_group1 labeled_re snippet of
        Some g \<Rightarrow> Some g
      | None \<Rightarrow> match_group1 bare_re snippet)"

text \<open>The body of \<open>rawChunks.map(...)\<close>.\<close>

definition enrich_chunk :: "jsstring \<Rightarrow> GroundingChunk \<Rightarrow> GroundingChunk" where
  "enrich_chunk txt chunk =
     (case maps chunk of
        None \<Rightarrow> chunk
      | Some m \<Rightarrow>
          (case title m of
             None \<Rightarrow> chunk
           | Some t \<Rightarrow>
               if t = [] then chunk
               else
                 (case indexOf txt t of
                    None \<Rightarrow> chunk
                  | Some titleIndex \<Rightarrow>
                      (case phoneMatch (slice_js titleIndex (titleIndex + 400) txt) of
                         None \<Rightarrow> chunk
                       | Some g \<Rightarrow>
                           if g = [] then chunk
                           else chunk\<lparr>maps := Some (m\<lparr>phoneNumber := Some (trim g)\<rparr>)\<rparr>))))"

text \<open>The part of \<open>identifyDishAndFindPlaces\<close> after the service has answered.\<close>

definition parse_response :: "response \<Rightarrow> DishAnalysisResult" where
  "parse_response r =
     (let txt = response_text r;
          lines = nonblank_lines txt;
          rawChunks = (case candidateChunks r of None \<Rightarrow> [] | Some cs \<Rightarrow> cs)
      in \<lparr> dishName = parse_dishName lines,
           description = parse_description lines,
           groundingChunks = map (enrich_chunk txt) rawChunks,
           rawText = txt \<rparr>)"

definition analysis_failed_message :: jsstring where
  "analysis_failed_message =
     js ''Failed to analyze dish. Please ensure your API_KEY is a valid Google Gemini key.''"

text \<open>
  \<open>identifyDishAndFindPlaces\<close> as a function of how \<open>generateContent\<close> settles: the
  whole body is inside \<open>try\<close>, and the \<open>catch\<close> throws one fixed error.
\<close>

definition identifyDishAndFindPlaces :: "js_error + response \<Rightarrow> js_error + DishAnalysisResult" where
  "identifyDishAndFindPlaces settled =
     (case settled of
        Inl e \<Rightarrow> Inl (Error analysis_failed_message)
      | Inr r \<Rightarrow> Inr (parse_response r))"

section \<open>encodeURIComponent\<close>

text \<open>
  ECMAScript \<open>Encode\<close> with the unreserved set of \<open>encodeURIComponent\<close>: letters,
  digits and \<open>- _ . ! ~ * ' ( )\<close> are copied; any other code point is written as the
  percent-escaped octets of its UTF-8 form; an unpaired surrogate throws \<open>URIError\<close>.
\<close>

definition uriUnescaped :: "code_unit \<Rightarrow> bool" where
  "uriUnescaped c \<longleftrightarrow>
     (0x41 \<le> c \<and> c \<le> 0x5A) \<or> (0x61 \<le> c \<and> c \<le> 0x7A) \<or> (0x30 \<le> c \<and> c \<le> 0x39) \<or>
     c = 0x2D \<or> c = 0x5F \<or> c = 0x2E \<or> c = 0x21 \<or> c = 0x7E \<or> c = 0x2A \<or>
     c = 0x27 \<or> c = 0x28 \<or> c = 0x29"

definition hex_digit :: "nat \<Rightarrow> code_unit" where
  "hex_digit n = (if n < 10 then 0x30 + word_of_nat n else 0x41 + word_of_nat (n - 10))"

definition percent :: "nat \<Rightarrow> jsstring" where
  "percent octet = [0x25, hex_digit (octet div 16), hex_digit (octet mod 16)]"

definition utf8 :: "nat \<Rightarrow> nat list" where
  "utf8 cp =
     (if cp < 0x80 then [cp]
      else if cp < 0x800 then [0xC0 + cp div 64, 0x80 + cp mod 64]
      else if cp < 0x10000 then
        [0xE0 + cp div 4096, 0x80 + (cp div 64) mod 64, 0x80 + cp mod 64]
      else
        [0xF0 + cp div 262144, 0x80 + (cp div 4096) mod 64,
         0x80 + (cp div 64) mod 64, 0x80 + cp mod 64])"

definition isHighSurrogate :: "code_unit \<Rightarrow> bool" where
  "isHighSurrogate c \<longleftrightarrow> 0xD800 \<le> c \<and> c \<le> 0xDBFF"

definition isLowSurrogate :: "code_unit \<Rightarrow> bool" where
  "isLowSurrogate c \<longleftrightarrow> 0xDC00 \<le> c \<and> c \<le> 0xDFFF"

definition escape :: "nat \<Rightarrow> jsstring" where
  "escape cp = concat (map percent (utf8 cp))"

fun encodeURIComponent :: "jsstring \<Rightarrow> jsstring option" where
  "encodeURIComponent [] = Some []"
| "encodeURIComponent (c # cs) =
     (if uriUnescaped c then map_option ((#) c) (encodeURIComponent cs)
      else if isLowSurrogate c then None
      else if isHighSurrogate c then
        (case cs of
           [] \<Rightarrow> None
         | d # ds \<Rightarrow>
             if isLowSurrogate d then
               map_option
                 ((@) (escape (0x10000 + (unat c - 0xD800) * 0x400 + (unat d - 0xDC00))))
                 (encodeURIComponent ds)
             else None)
      else map_option ((@) (escape (unat c))) (encodeURIComponent cs))"

text \<open>
  The reading side, to compare the encoder with: percent escapes back to octets, the
  octets as UTF-8 back to code points, the code points back to UTF-16.
\<close>

definition hex_value :: "code_unit \<Rightarrow> nat option" where
  "hex_value c =
     (if 0x30 \<le> c \<and> c \<le> 0x39 then Some (unat c - 0x30)
      else if 0x41 \<le> c \<and> c \<le> 0x46 then Some (unat c - 0x37)
      else if 0x61 \<le> c \<and> c \<le> 0x66 then Some (unat c - 0x57)
      else None)"

fun percent_decode :: "jsstring \<Rightarrow> nat list option" where
  "percent_decode [] = Some []"
| "percent_decode (c # cs) =
     (if c = 0x25 then
        (case cs of
           h # l # rest \<Rightarrow>
             (case hex_value h of
                None \<Rightarrow> None
              | Some a \<Rightarrow>
                  (case hex_value l of
                     None \<Rightarrow> None
                   | Some b \<Rightarrow> map_option ((#) (16 * a + b)) (percent_decode rest)))
         | _ \<Rightarrow> None)
      else if unat c < 0x80 then map_option ((#) (unat c)) (percent_decode cs)
      else None)"

definition is_cont :: "nat \<Rightarrow> bool" where
  "is_cont b \<longleftrightarrow> 0x80 \<le> b \<and> b < 0xC0"

fun utf8_decode :: "nat list \<Rightarrow> nat list option" where
  "utf8_decode [] = Some []"
| "utf8_decode (b # bs) =
     (if b < 0x80 then map_option ((#) b) (utf8_decode bs)
      else if 0xC0 \<le> b \<and> b < 0xE0 then
        (case bs of
           b1 # rest \<Rightarrow>
             if is_cont b1
             then map_option ((#) ((b - 0xC0) * 64 + (b1 - 0x80))) (utf8_decode rest)
             else None
         | _ \<Rightarrow> None)
      else if 0xE0 \<le> b \<and> b < 0xF0 then
        (case bs of
           b1 # b2 # rest \<Rightarrow>
             if is_cont b1 \<and> is_cont b2
             then map_option ((#) ((b - 0xE0) * 4096 + (b1 - 0x80) * 64 + (b2 - 0x80)))
                    (utf8_decode rest)
             else None
         | _ \<Rightarrow> None)
      else if 0xF0 \<le> b \<and> b < 0xF8 then
        (case bs of
           b1 # b2 # b3 # rest \<Rightarrow>
             if is_cont b1 \<and> is_cont b2 \<and> is_cont b3
             then map_option
                    ((#) ((b - 0xF0) * 262144 + (b1 - 0x80) * 4096 + (b2 - 0x80) * 64 +
                          (b3 - 0x80)))
                    (utf8_decode rest)
             else None
         | _ \<Rightarrow> None)
      else None)"

definition utf16 :: "nat \<Rightarrow> jsstring" where
  "utf16 cp =
     (if cp < 0x10000 then [word_of_nat cp]
      else [word_of_nat (0xD800 + (cp - 0x10000) div 0x400),
            word_of_nat (0xDC00 + (cp - 0x10000) mod 0x400)])"

definition uri_decode :: "jsstring \<Rightarrow> jsstring option" where
  "uri_decode e =
     (case percent_decode e of
        None \<Rightarrow> None
      | Some octets \<Rightarrow>
          (case utf8_decode octets of
             None \<Rightarrow> None
           | Some cps \<Rightarrow> Some (concat (map utf16 cps))))"

section \<open>The application component (App.tsx)\<close>

record PendingOrder =
  phone :: jsstring
  order_title :: jsstring

record App =
  currentPage :: jsstring
  appState :: AppState
  imagePreview :: "jsstring option"
  uploadedImageUrl :: "jsstring option"
  analysisResult :: "DishAnalysisResult option"
  location :: "LocationData option"
  errorMsg :: "jsstring option"
  showDeliveryModal :: bool
  pendingOrder :: "PendingOrder option"

text \<open>The signed-in user of the authentication context, of which only \<open>email\<close> is read.\<close>

record user =
  email :: "jsstring option"

text \<open>The argument of \<open>apiService.trackLead\<close>.\<close>

record lead =
  lead_dishName :: jsstring
  restaurantName :: jsstring
  restaurantPhone :: jsstring
  userEmail :: "jsstring option"
  timestamp :: jsstring
  dishImageUrl :: "jsstring option"

type_synonym image_file = "8 word list"

text \<open>What a handler does to the world outside the component's state.\<close>

datatype effect =
    PreventDefault
  | Alert jsstring
  | ClickFileInput
  | ConvertToJpeg image_file
  | UploadDishImage jsstring
  | GetLocation
  | CallIdentifyDish "LocationData option"
  | TrackLead lead
  | WindowOpen jsstring jsstring
  | Console jsstring

definition initial_app :: App where
  "initial_app =
     \<lparr> currentPage = js ''home'', appState = IDLE, imagePreview = None,
       uploadedImageUrl = None, analysisResult = None, location = None, errorMsg = None,
       showDeliveryModal = False, pendingOrder = None \<rparr>"

text \<open>
  \<open>handleCapture\<close>.  The file input is mounted whenever the capture button is, so
  \<open>fileInputRef.current\<close> is set.
\<close>

definition handleCapture :: "user option \<Rightarrow> App \<Rightarrow> App \<times> effect list" where
  "handleCapture currentUser a =
     (let a1 = a\<lparr>errorMsg := None\<rparr>
      in case currentUser of
           None \<Rightarrow> (a1\<lparr>currentPage := js ''auth''\<rparr>, [])
         | Some u \<Rightarrow> (a1, [ClickFileInput]))"

text \<open>
  \<open>handleFileChange\<close> runs to its \<open>await\<close>; \<open>True\<close> in the result says that the
  handler is now suspended on \<open>convertToJpeg\<close>.
\<close>

definition handleFileChange :: "image_file option \<Rightarrow> App \<Rightarrow> App \<times> effect list \<times> bool" where
  "handleFileChange f a =
     (case f of
        None \<Rightarrow> (a, [], False)
      | Some fl \<Rightarrow>
          (a\<lparr>appState := ANALYZING, uploadedImageUrl := None\<rparr>, [ConvertToJpeg fl], True))"

text \<open>
  \<open>handleFileChange\<close> resumed with the settled \<open>convertToJpeg\<close>.  On success it starts
  the upload and calls \<open>processImage\<close>, which runs to \<open>await getLocation()\<close>;
  \<open>True\<close> says that \<open>processImage\<close> is now suspended there.
\<close>

definition handleFileChange_resume ::
    "js_error + jsstring \<Rightarrow> App \<Rightarrow> App \<times> effect list \<times> bool" where
  "handleFileChange_resume settled a =
     (case settled of
        Inr base64Jpeg \<Rightarrow>
          (a\<lparr>imagePreview := Some base64Jpeg\<rparr>, [UploadDishImage base64Jpeg, GetLocation], True)
      | Inl err \<Rightarrow>
          (a\<lparr>errorMsg := Some (js ''Unable to process image.''), appState := ERROR\<rparr>,
           [Console (js ''Image processing error:'')], False))"

text \<open>The two callbacks on the upload promise.\<close>

definition upload_settled :: "js_error + jsstring \<Rightarrow> App \<Rightarrow> App \<times> effect list" where
  "upload_settled settled a =
     (case settled of
        Inr url \<Rightarrow> (a\<lparr>uploadedImageUrl := Some url\<rparr>, [])
      | Inl err \<Rightarrow> (a, [Console (js ''Background image upload failed'')]))"

text \<open>\<open>processImage\<close> resumed with the settled \<open>getLocation\<close>; it then calls the client.\<close>

definition processImage_located :: "js_error + LocationData \<Rightarrow> App \<Rightarrow> App \<times> effect list" where
  "processImage_located settled a =
     (case settled of
        Inr locData \<Rightarrow> (a\<lparr>location := Some locData\<rparr>, [CallIdentifyDish (Some locData)])
      | Inl e \<Rightarrow> (a, [Console (js ''Proceeding without location''), CallIdentifyDish None]))"

text \<open>\<open>processImage\<close> resumed with the settled \<open>identifyDishAndFindPlaces\<close>.\<close>

definition error_message :: "js_error \<Rightarrow> jsstring" where
  "error_message e = (case e of Error m \<Rightarrow> m | URIError \<Rightarrow> js ''URI malformed'')"

definition processImage_analyzed ::
    "js_error + DishAnalysisResult \<Rightarrow> App \<Rightarrow> App \<times> effect list" where
  "processImage_analyzed settled a =
     (case settled of
        Inr result \<Rightarrow> (a\<lparr>analysisResult := Some result, appState := RESULTS\<rparr>, [])
      | Inl err \<Rightarrow>
          (a\<lparr>errorMsg := Some (or_else (error_message err) (js ''Something went wrong.'')),
             appState := ERROR\<rparr>,
           [Console (error_message err)]))"

text \<open>
  \<open>resetApp\<close>.  Its buttons are rendered in RESULTS and ERROR, where the file input is
  not mounted, so the guarded write to the input does nothing.
\<close>

definition resetApp :: "App \<Rightarrow> App" where
  "resetApp a =
     a\<lparr>appState := IDLE, imagePreview := None, analysisResult := None,
       uploadedImageUrl := None, errorMsg := None\<rparr>"

definition no_contact_notice :: jsstring where
  "no_contact_notice = js ''No official contact number found for this restaurant.''"

text \<open>\<open>handleWhatsAppClick(e, phone, title)\<close>; \<open>!phone\<close> holds for a missing and for an empty phone.\<close>

definition handleWhatsAppClick ::
    "jsstring option \<Rightarrow> jsstring option \<Rightarrow> App \<Rightarrow> App \<times> effect list" where
  "handleWhatsAppClick ph ttl a =
     (case ph of
        None \<Rightarrow> (a, [PreventDefault, Alert no_contact_notice])
      | Some p \<Rightarrow>
          if p = [] then (a, [PreventDefault, Alert no_contact_notice])
          else
            (a\<lparr>pendingOrder :=
                 Some \<lparr> phone = p,
                        order_title = (case ttl of None \<Rightarrow> js ''Unknown Restaurant''
                                       | Some t \<Rightarrow> or_else t (js ''Unknown Restaurant'')) \<rparr>,
               showDeliveryModal := True\<rparr>,
             [PreventDefault]))"

text \<open>The arguments of the order link of one result card: \<open>chunk.maps?.phoneNumber\<close>, \<open>chunk.maps?.title\<close>.\<close>

definition chunk_phone :: "GroundingChunk \<Rightarrow> jsstring option" where
  "chunk_phone c = (case maps c of None \<Rightarrow> None | Some m \<Rightarrow> phoneNumber m)"

definition chunk_title :: "GroundingChunk \<Rightarrow> jsstring option" where
  "chunk_title c = (case maps c of None \<Rightarrow> None | Some m \<Rightarrow> title m)"

definition order_click :: "GroundingChunk \<Rightarrow> App \<Rightarrow> App \<times> effect list" where
  "order_click c a = handleWhatsAppClick (chunk_phone c) (chunk_title c) a"

text \<open>\<open>pendingOrder.phone.replace(/\D/g, '')\<close>\<close>

definition cleanPhone :: "jsstring \<Rightarrow> jsstring" where
  "cleanPhone p = filter isDigit p"

text \<open>The message of \<open>handleDeliverySelection\<close>.\<close>

definition order_message ::
    "PendingOrder \<Rightarrow> jsstring \<Rightarrow> jsstring \<Rightarrow> jsstring option \<Rightarrow> jsstring" where
  "order_message po dish provider imageUrl =
     (let message = js ''Hello, I found '' @ order_title po @
                    js '' on DishOut. I'd like to order '' @ dish @ js '' via '' @ provider @
                    js ''.''
      in case imageUrl of
           None \<Rightarrow> message
         | Some u \<Rightarrow> if u = [] then message else message @ js '' Dish Reference: '' @ u)"

text \<open>
  \<open>handleDeliverySelection(provider)\<close>; \<open>now\<close> is \<open>new Date().toISOString()\<close>.  An
  exception of \<open>encodeURIComponent\<close> leaves the handler before any effect or update.
\<close>

definition handleDeliverySelection ::
    "user option \<Rightarrow> jsstring \<Rightarrow> jsstring \<Rightarrow> App \<Rightarrow> js_error + App \<times> effect list" where
  "handleDeliverySelection currentUser now provider a =
     (case pendingOrder a of
        None \<Rightarrow> Inr (a, [])
      | Some po \<Rightarrow>
          (let clean = cleanPhone (phone po);
               dish = (case analysisResult a of
                         None \<Rightarrow> unknown_dish
                       | Some r \<Rightarrow> or_else (dishName r) unknown_dish);
               message = order_message po dish provider (uploadedImageUrl a)
           in case encodeURIComponent message of
                None \<Rightarrow> Inl URIError
              | Some encoded \<Rightarrow>
                  Inr (a\<lparr>showDeliveryModal := False, pendingOrder := None\<rparr>,
                       [TrackLead \<lparr> lead_dishName = dish, restaurantName = order_title po,
                                    restaurantPhone = clean,
                                    userEmail = (case currentUser of None \<Rightarrow> None
                                                 | Some u \<Rightarrow> email u),
                                    timestamp = now, dishImageUrl = uploadedImageUrl a \<rparr>,
                        WindowOpen (js ''https://wa.me/'' @ clean @ js ''?text='' @ encoded)
                                   (js ''_blank'')])))"

text \<open>The \<open>onClose\<close> callback given to the delivery selector.\<close>

definition onClose :: "App \<Rightarrow> App" where
  "onClose a = a\<lparr>showDeliveryModal := False\<rparr>"

section \<open>Executions\<close>

text \<open>
  The component together with the signed-in user and the asynchronous operations in
  flight.  A handler runs without interruption from one \<open>await\<close> to the next, so each
  such segment is one step.  The suspended continuations are counted by kind: what a
  continuation does depends only on the value it is resumed with.
\<close>

record System =
  app :: App
  currentUser :: "user option"
  converting :: nat
  locating :: nat
  analyzing :: nat
  uploading :: nat

datatype event =
    Navigate jsstring
  | AuthSuccess
  | AuthChanged "user option"
  | Capture
  | FileChange "image_file option"
  | JpegSettled "js_error + jsstring"
  | LocationSettled "js_error + LocationData"
  | AnalysisSettled "js_error + response"
  | UploadSettled "js_error + jsstring"
  | Reset
  | OrderClick nat
  | DeliverySelect jsstring jsstring
  | DeliveryClose

text \<open>\<open>renderContent\<close>: which elements, and so which handlers, are on the page.\<close>

definition renders_main :: "App \<Rightarrow> bool" where
  "renders_main a \<longleftrightarrow>
     currentPage a \<noteq> js ''privacy'' \<and> currentPage a \<noteq> js ''terms'' \<and>
     currentPage a \<noteq> js ''auth''"

definition shows_idle :: "App \<Rightarrow> bool" where
  "shows_idle a \<longleftrightarrow> renders_main a \<and> appState a = IDLE"

definition shows_results :: "App \<Rightarrow> bool" where
  "shows_results a \<longleftrightarrow> renders_main a \<and> appState a = RESULTS \<and> analysisResult a \<noteq> None"

definition shows_error :: "App \<Rightarrow> bool" where
  "shows_error a \<longleftrightarrow> renders_main a \<and> appState a = ERROR"

text \<open>
  One step.  \<open>None\<close>: the event cannot happen in this state (its element is not
  rendered, or no operation of that kind is in flight).  The delivery selector is
  rendered with the main content; when it calls \<open>onSelect\<close> and \<open>onClose\<close> is its own
  business, so both are possible whenever it is rendered.
\<close>

definition step :: "System \<Rightarrow> event \<Rightarrow> (System \<times> effect list) option" where
  "step s ev =
     (case ev of
        Navigate p \<Rightarrow> Some (s\<lparr>app := (app s)\<lparr>currentPage := p\<rparr>\<rparr>, [])
      | AuthSuccess \<Rightarrow>
          if currentPage (app s) = js ''auth''
          then Some (s\<lparr>app := (app s)\<lparr>currentPage := js ''home''\<rparr>\<rparr>, [])
          else None
      | AuthChanged u \<Rightarrow> Some (s\<lparr>currentUser := u\<rparr>, [])
      | Capture \<Rightarrow>
          if shows_idle (app s)
          then (case handleCapture (currentUser s) (app s) of
                  (a, effs) \<Rightarrow> Some (s\<lparr>app := a\<rparr>, effs))
          else None
      | FileChange f \<Rightarrow>
          if shows_idle (app s)
          then (case handleFileChange f (app s) of
                  (a, effs, suspended) \<Rightarrow>
                    Some (s\<lparr>app := a,
                            converting := converting s + (if suspended then 1 else 0)\<rparr>, effs))
          else None
      | JpegSettled r \<Rightarrow>
          if converting s = 0 then None
          else (case handleFileChange_resume r (app s) of
                  (a, effs, suspended) \<Rightarrow>
                    Some (s\<lparr>app := a, converting := converting s - 1,
                            locating := locating s + (if suspended then 1 else 0),
                            uploading := uploading s + (if suspended then 1 else 0)\<rparr>, effs))
      | LocationSettled r \<Rightarrow>
          if locating s = 0 then None
          else (case processImage_located r (app s) of
                  (a, effs) \<Rightarrow>
                    Some (s\<lparr>app := a, locating := locating s - 1,
                            analyzing := analyzing s + 1\<rparr>, effs))
      | AnalysisSettled r \<Rightarrow>
          if analyzing s = 0 then None
          else (case processImage_analyzed (identifyDishAndFindPlaces r) (app s) of
                  (a, effs) \<Rightarrow> Some (s\<lparr>app := a, analyzing := analyzing s - 1\<rparr>, effs))
      | UploadSettled r \<Rightarrow>
          if uploading s = 0 then None
          else (case upload_settled r (app s) of
                  (a, effs) \<Rightarrow> Some (s\<lparr>app := a, uploading := uploading s - 1\<rparr>, effs))
      | Reset \<Rightarrow>
          if shows_results (app s) \<or> shows_error (app s)
          then Some (s\<lparr>app := resetApp (app s)\<rparr>, [])
          else None
      | OrderClick i \<Rightarrow>
          (case analysisResult (app s) of
             None \<Rightarrow> None
           | Some r \<Rightarrow>
               if shows_results (app s) \<and> i < length (groundingChunks r)
               then (case order_click (groundingChunks r ! i) (app s) of
                       (a, effs) \<Rightarrow> Some (s\<lparr>app := a\<rparr>, effs))
               else None)
      | DeliverySelect provider now \<Rightarrow>
          if renders_main (app s)
          then (case handleDeliverySelection (currentUser s) now provider (app s) of
                  Inl e \<Rightarrow> Some (s, [Console (error_message e)])
                | Inr (a, effs) \<Rightarrow> Some (s\<lparr>app := a\<rparr>, effs))
          else None
      | DeliveryClose \<Rightarrow>
          if renders_main (app s) then Some (s\<lparr>app := onClose (app s)\<rparr>, []) else None)"

text \<open>A sequence of events from a state, with the effects in order.\<close>

fun run :: "System \<Rightarrow> event list \<Rightarrow> (System \<times> effect list) option" where
  "run s [] = Some (s, [])"
| "run s (ev # evs) =
     (case step s ev of
        None \<Rightarrow> None
      | Some (s1, effs1) \<Rightarrow>
          (case run s1 evs of
             None \<Rightarrow> None
           | Some (s2, effs2) \<Rightarrow> Some (s2, effs1 @ effs2)))"

definition initial_system :: System where
  "initial_system =
     \<lparr> app = initial_app, currentUser = None, converting = 0, locating = 0,
       analyzing = 0, uploading = 0 \<rparr>"

definition reachable :: "System \<Rightarrow> bool" where
  "reachable s \<longleftrightarrow> (\<exists>evs effs. run initial_system evs = Some (s, effs))"

definition final_state :: "System \<Rightarrow> event list \<Rightarrow> System" where
  "final_state s evs = (case run s evs of None \<Rightarrow> s | Some (s1, effs) \<Rightarrow> s1)"

definition trace_effects :: "System \<Rightarrow> event list \<Rightarrow> effect list" where
  "trace_effects s evs = (case run s evs of None \<Rightarrow> [] | Some (s1, effs) \<Rightarrow> effs)"

text \<open>
  What holds of every reachable state: result and error message go with the states
  RESULTS and ERROR, and at most one scan pipeline is in flight, only while ANALYZING.
\<close>

definition pipeline :: "System \<Rightarrow> nat" where
  "pipeline s = converting s + locating s + analyzing s"

definition consistent :: "System \<Rightarrow> bool" where
  "consistent s \<longleftrightarrow>
     ((analysisResult (app s) \<noteq> None) = (appState (app s) = RESULTS)) \<and>
     ((errorMsg (app s) \<noteq> None) = (appState (app s) = ERROR)) \<and>
     pipeline s \<le> 1 \<and> (pipeline s = 0 \<or> appState (app s) = ANALYZING)"

text \<open>The characters of an encoded URI component: unreserved ones and \<open>%\<close>.\<close>

definition uri_char :: "code_unit \<Rightarrow> bool" where
  "uri_char c \<longleftrightarrow> uriUnescaped c \<or> c = 0x25"

section \<open>Example inputs\<close>

text \<open>
  A response whose third line names a restaurant with a labeled number, and the
  grounding chunk of that restaurant.
\<close>

definition ramen_text :: jsstring where
  "ramen_text =
     js ''Spicy Tonkotsu Ramen'' @ [0x0A] @ js ''Rich pork broth with noodles.'' @ [0x0A] @
     js ''Noodle House Phone: +971501234567''"

definition noodle_house :: maps_info where
  "noodle_house =
     \<lparr> uri = Some (js ''https://maps.example/noodle''), title = Some (js ''Noodle House''),
       phoneNumber = None, address = None, placeAnswerSources = None \<rparr>"

definition noodle_chunk :: GroundingChunk where
  "noodle_chunk = \<lparr> maps = Some noodle_house \<rparr>"

text \<open>A title followed by 400 spaces, so that what comes next is outside the window.\<close>

definition padded_title :: jsstring where
  "padded_title = js ''Noodle House'' @ replicate 400 0x20"

definition far_number :: jsstring where
  "far_number = js ''Phone: +971501234567''"


text \<open>A second chunk, whose title the response does not mention.\<close>

definition cafe_chunk :: GroundingChunk where
  "cafe_chunk =
     \<lparr> maps = Some \<lparr> uri = Some (js ''https://maps.example/cafe''), title = Some (js ''Cafe X''),
                     phoneNumber = None, address = None, placeAnswerSources = None \<rparr> \<rparr>"

definition ramen_response :: response where
  "ramen_response =
     \<lparr> resp_text = Some ramen_text, candidateChunks = Some [noodle_chunk, cafe_chunk] \<rparr>"

definition empty_response :: response where
  "empty_response = \<lparr> resp_text = Some [], candidateChunks = None \<rparr>"

definition photo :: image_file where
  "photo = [0xFF, 0xD8, 0xFF]"

definition diner :: user where
  "diner = \<lparr> email = Some (js ''diner@example.org'') \<rparr>"

text \<open>A scan up to the call of the analysis client, and its two possible ends.\<close>

definition scan_events :: "event list" where
  "scan_events =
     [AuthChanged (Some diner), Capture, FileChange (Some photo),
      JpegSettled (Inr (js ''data:image/jpeg;base64,AAAA'')),
      LocationSettled (Inl (Error (js ''User denied Geolocation'')))]"

definition scan_succeeds :: "event list" where
  "scan_succeeds = scan_events @ [AnalysisSettled (Inr ramen_response)]"

definition scan_fails :: "event list" where
  "scan_fails = scan_events @ [AnalysisSettled (Inl (Error (js ''fetch failed'')))]"


definition noodle_order :: PendingOrder where
  "noodle_order = \<lparr> phone = js ''+971501234567'', order_title = js ''Noodle House'' \<rparr>"

definition choose_provider :: event where
  "choose_provider = DeliverySelect (js ''Talabat'') (js ''2026-01-01T12:00:00.000Z'')"

text \<open>The states that these executions go through.\<close>

definition scanning_system :: System where
  "scanning_system =
     \<lparr> app = initial_app\<lparr>appState := ANALYZING,
                          imagePreview := Some (js ''data:image/jpeg;base64,AAAA'')\<rparr>,
       currentUser = Some diner, converting = 0, locating = 0, analyzing = 1, uploading = 1 \<rparr>"

definition scan_effects :: "effect list" where
  "scan_effects =
     [ClickFileInput, ConvertToJpeg photo,
      UploadDishImage (js ''data:image/jpeg;base64,AAAA''), GetLocation,
      Console (js ''Proceeding without location''), CallIdentifyDish None]"

definition ramen_result :: DishAnalysisResult where
  "ramen_result =
     \<lparr> dishName = js ''Spicy Tonkotsu Ramen'',
       description = js ''Rich pork broth with noodles. Noodle House Phone: +971501234567'',
       groundingChunks =
         [\<lparr> maps = Some (noodle_house\<lparr>phoneNumber := Some (js ''+971501234567'')\<rparr>) \<rparr>,
          cafe_chunk],
       rawText = ramen_text \<rparr>"

definition results_system :: System where
  "results_system =
     scanning_system\<lparr>app := (app scanning_system)\<lparr>analysisResult := Some ramen_result,
                                                   appState := RESULTS\<rparr>,
                     analyzing := 0\<rparr>"

definition error_system :: System where
  "error_system =
     scanning_system\<lparr>app := (app scanning_system)\<lparr>errorMsg := Some analysis_failed_message,
                                                   appState := ERROR\<rparr>,
                     analyzing := 0\<rparr>"

definition ordering_system :: System where
  "ordering_system =
     results_system\<lparr>app := (app results_system)\<lparr>pendingOrder := Some noodle_order,
                                                 showDeliveryModal := True\<rparr>\<rparr>"

definition dismissed_system :: System where
  "dismissed_system =
     ordering_system\<lparr>app := (app ordering_system)\<lparr>showDeliveryModal := False\<rparr>\<rparr>"


section \<open>Lines, trimming and joining\<close>

lemma split_newline_not_Nil: "split_newline s \<noteq> []"
  by (induction s) (auto split: list.splits)

lemma join_split_newline: "join [0x0A] (split_newline s) = s"
proof (induction s)
  case Nil
  show ?case by simp
next
  case (Cons c cs)
  obtain l ls where sp: "split_newline cs = l # ls"
    using split_newline_not_Nil [of cs] by (cases "split_newline cs") auto
  show ?case
  proof (cases "c = 0x0A")
    case True
    with Cons sp show ?thesis by simp
  next
    case False
    with Cons sp show ?thesis by (cases ls) auto
  qed
qed

lemma split_newline_no_newline: "l \<in> set (split_newline s) \<Longrightarrow> 0x0A \<notin> set l"
proof (induction s arbitrary: l)
  case Nil
  then show ?case by simp
next
  case (Cons c cs)
  obtain l0 ls where sp: "split_newline cs = l0 # ls"
    using split_newline_not_Nil [of cs] by (cases "split_newline cs") auto
  show ?case
  proof (cases "c = 0x0A")
    case True
    with Cons show ?thesis by auto
  next
    case False
    with Cons.prems sp have "l = c # l0 \<or> l \<in> set ls" by auto
    then show ?thesis
    proof
      assume "l = c # l0"
      moreover have "0x0A \<notin> set l0" using Cons.IH [of l0] sp by simp
      ultimately show ?thesis using False by auto
    next
      assume "l \<in> set ls"
      then show ?thesis using Cons.IH [of l] sp by simp
    qed
  qed
qed








section \<open>The matcher finds exactly the occurrences of a pattern\<close>

lemma set_candidates: "set (candidates q n) = {k. in_bounds q k \<and> k \<le> n}"
  by (cases q) (auto simp: upper_bound_def split: option.splits)

lemma le_length_takeWhile:
  "k \<le> length (takeWhile P s) \<longleftrightarrow> k \<le> length s \<and> list_all P (take k s)"
proof (induction s arbitrary: k)
  case Nil
  show ?case by simp
next
  case (Cons c cs)
  show ?case by (cases k) (auto simp: Cons.IH)
qed

lemma try_counts_SomeD:
  "try_counts as s ks = Some r \<Longrightarrow>
     \<exists>k r'. k \<in> set ks \<and> r = k # r' \<and> match_seq as (drop k s) = Some r'"
  by (induction ks) (auto split: option.splits)

lemma try_counts_None_iff:
  "try_counts as s ks = None \<longleftrightarrow> (\<forall>k\<in>set ks. match_seq as (drop k s) = None)"
  by (induction ks) (auto split: option.splits)

lemma valid_counts_Cons:
  "valid_counts (a # as) s ks \<longleftrightarrow>
     (\<exists>k ks'. ks = k # ks' \<and> k \<le> length s \<and> list_all (fst a) (take k s) \<and>
               in_bounds (snd a) k \<and> valid_counts as (drop k s) ks')"
  by (cases ks) auto

lemma match_seq_valid: "match_seq as s = Some ks \<Longrightarrow> valid_counts as s ks"
proof (induction as arbitrary: s ks)
  case Nil
  then show ?case by simp
next
  case (Cons a as)
  from Cons.prems obtain k r' where
    k: "k \<in> set (candidates (snd a) (length (takeWhile (fst a) s)))" and
    r: "ks = k # r'" and m: "match_seq as (drop k s) = Some r'"
    by (auto dest: try_counts_SomeD)
  from k have "in_bounds (snd a) k" "k \<le> length s" "list_all (fst a) (take k s)"
    by (simp_all add: set_candidates le_length_takeWhile)
  moreover from m have "valid_counts as (drop k s) r'" by (rule Cons.IH)
  ultimately show ?case using r by simp
qed

lemma valid_match_seq: "valid_counts as s ks \<Longrightarrow> match_seq as s \<noteq> None"
proof (induction as arbitrary: s ks)
  case Nil
  then show ?case by simp
next
  case (Cons a as)
  from Cons.prems obtain k ks' where
    "ks = k # ks'" "k \<le> length s" "list_all (fst a) (take k s)" "in_bounds (snd a) k"
    and v: "valid_counts as (drop k s) ks'"
    by (auto simp: valid_counts_Cons)
  then have "k \<in> set (candidates (snd a) (length (takeWhile (fst a) s)))"
    by (simp add: set_candidates le_length_takeWhile)
  moreover from v have "match_seq as (drop k s) \<noteq> None" by (rule Cons.IH)
  ultimately show ?case by (auto simp: try_counts_None_iff)
qed

lemma valid_counts_length: "valid_counts as s ks \<Longrightarrow> length ks = length as"
  by (induction as s ks rule: valid_counts.induct) auto

lemma valid_counts_sum: "valid_counts as s ks \<Longrightarrow> sum_list ks \<le> length s"
  by (induction as s ks rule: valid_counts.induct) auto

lemma valid_counts_chars:
  "valid_counts as s ks \<Longrightarrow> list_all (\<lambda>c. \<exists>a\<in>set as. fst a c) (take (sum_list ks) s)"
proof (induction as s ks rule: valid_counts.induct)
  case (3 a as s k ks)
  then have "list_all (fst a) (take k s)" and
    ih: "list_all (\<lambda>c. \<exists>a\<in>set as. fst a c) (take (sum_list ks) (drop k s))"
    by simp_all
  have "take (k + sum_list ks) s = take k s @ take (sum_list ks) (drop k s)"
    by (simp add: take_add)
  moreover have "list_all (\<lambda>c. \<exists>b\<in>set (a # as). fst b c) (take k s)"
    using \<open>list_all (fst a) (take k s)\<close> by (auto simp: list_all_iff)
  moreover have "list_all (\<lambda>c. \<exists>b\<in>set (a # as). fst b c) (take (sum_list ks) (drop k s))"
    using ih by (auto simp: list_all_iff)
  ultimately show ?case by simp
qed simp_all

lemma regex_exec_SomeD:
  "regex_exec as i s = Some (j, ks) \<Longrightarrow>
     i \<le> j \<and> j - i \<le> length s \<and> match_seq as (drop (j - i) s) = Some ks \<and>
     (\<forall>p < j - i. match_seq as (drop p s) = None)"
proof (induction s arbitrary: i)
  case Nil
  then show ?case by auto
next
  case (Cons c cs)
  show ?case
  proof (cases "match_seq as (c # cs)")
    case (Some r)
    with Cons.prems show ?thesis by simp
  next
    case None
    with Cons.prems have "regex_exec as (Suc i) cs = Some (j, ks)" by simp
    from Cons.IH [OF this] have
      le: "Suc i \<le> j" and len: "j - Suc i \<le> length cs" and
      m: "match_seq as (drop (j - Suc i) cs) = Some ks" and
      before: "\<forall>p < j - Suc i. match_seq as (drop p cs) = None"
      by simp_all
    from le have eq: "j - i = Suc (j - Suc i)" by simp
    have "\<forall>p < j - i. match_seq as (drop p (c # cs)) = None"
    proof (intro allI impI)
      fix p assume "p < j - i"
      then show "match_seq as (drop p (c # cs)) = None"
        using None before eq by (cases p) auto
    qed
    with le len m eq show ?thesis by simp
  qed
qed



lemma valid_counts_min:
  "valid_counts as s ks \<Longrightarrow> sum_list (map (\<lambda>a. min_count (snd a)) as) \<le> sum_list ks"
proof (induction as s ks rule: valid_counts.induct)
  case (3 a as s k ks)
  then have "in_bounds (snd a) k" and
    "sum_list (map (\<lambda>a. min_count (snd a)) as) \<le> sum_list ks"
    by simp_all
  moreover have "min_count (snd a) \<le> k"
    using \<open>in_bounds (snd a) k\<close> by (cases "snd a") auto
  ultimately show ?case by simp
qed simp_all

lemma sum_list_take_mono: "m \<le> n \<Longrightarrow> sum_list (take m (ks :: nat list)) \<le> sum_list (take n ks)"
proof (induction ks arbitrary: m n)
  case Nil
  show ?case by simp
next
  case (Cons k ks)
  show ?case
  proof (cases m)
    case 0
    then show ?thesis by simp
  next
    case (Suc m')
    with Cons.prems obtain n' where "n = Suc n'" "m' \<le> n'" by (cases n) auto
    with Suc Cons.IH [of m' n'] show ?thesis by simp
  qed
qed

lemma sum_list_take_le: "sum_list (take n (ks :: nat list)) \<le> sum_list ks"
  using sum_list_take_mono [of n "length ks" ks] by (cases "n \<le> length ks") auto

lemma indexOf_SomeD:
  "indexOf s t = Some i \<Longrightarrow>
     i \<le> length s \<and> prefix t (drop i s) \<and> (\<forall>j<i. \<not> prefix t (drop j s))"
proof (induction s arbitrary: i)
  case Nil
  then show ?case by (auto split: if_splits)
next
  case (Cons c cs)
  show ?case
  proof (cases "prefix t (c # cs)")
    case True
    with Cons.prems show ?thesis by simp
  next
    case False
    with Cons.prems obtain i' where i: "i = Suc i'" and ix: "indexOf cs t = Some i'"
      by auto
    from Cons.IH [OF ix] have
      "i' \<le> length cs" "prefix t (drop i' cs)" and b: "\<forall>j<i'. \<not> prefix t (drop j cs)"
      by simp_all
    moreover have "\<forall>j<Suc i'. \<not> prefix t (drop j (c # cs))"
    proof (intro allI impI)
      fix j assume "j < Suc i'"
      then show "\<not> prefix t (drop j (c # cs))" using False b by (cases j) auto
    qed
    ultimately show ?thesis using i by simp
  qed
qed


lemma occurs_at_iff: "occurs_at p s i \<longleftrightarrow> i \<le> length s \<and> match_seq (atoms p) (drop i s) \<noteq> None"
  unfolding occurs_at_def
  using match_seq_valid valid_match_seq by (metis not_Some_eq)


lemma match_group1_SomeD:
  assumes "match_group1 p s = Some g"
  shows "\<exists>i ks. i \<le> length s \<and> valid_counts (atoms p) (drop i s) ks \<and>
           (\<forall>j<i. \<not> occurs_at p s j) \<and>
           g = slice_js (i + sum_list (take (group_from p) ks))
                     (i + sum_list (take (group_to p) ks)) s"
proof -
  from assms obtain i ks where ex: "regex_exec (atoms p) 0 s = Some (i, ks)" and
    g: "g = slice_js (i + sum_list (take (group_from p) ks))
                  (i + sum_list (take (group_to p) ks)) s"
    by (auto simp: match_group1_def split: option.splits)
  from regex_exec_SomeD [OF ex] have
    "i \<le> length s" "match_seq (atoms p) (drop i s) = Some ks" and
    b: "\<forall>j<i. match_seq (atoms p) (drop j s) = None"
    by simp_all
  then have "valid_counts (atoms p) (drop i s) ks" by (simp add: match_seq_valid)
  moreover from b have "\<forall>j<i. \<not> occurs_at p s j" by (simp add: occurs_at_iff)
  ultimately show ?thesis using g \<open>i \<le> length s\<close> by blast
qed

lemma is_label_iff:
  "is_label l \<longleftrightarrow>
     (\<exists>a b c d e f. l = [a, b, c, d, e, f] \<and> ci 0x50 0x70 a \<and> ci 0x48 0x68 b \<and>
        ci 0x4F 0x6F c \<and> ci 0x4E 0x6E d \<and> ci 0x45 0x65 e \<and> chr 0x3A f)"
  by (auto simp: is_label_def label_letters_def list_all2_Cons2 ci_def chr_def)

lemma valid_counts_once:
  "valid_counts (once P # as) s ks \<longleftrightarrow>
     (\<exists>c s' ks'. s = c # s' \<and> P c \<and> ks = 1 # ks' \<and> valid_counts as s' ks')"
  by (cases s; cases ks) (auto simp: once_def)


lemma labeled_validD:
  assumes "valid_counts (atoms labeled_re) s ks"
  shows "\<exists>lab rest k n. s = lab @ rest \<and> is_label lab \<and> ks = [1, 1, 1, 1, 1, 1, k, n] \<and>
        k + n \<le> length rest \<and> list_all isWhiteSpace (take k rest) \<and>
        list_all phone_char (take n (drop k rest)) \<and> 8 \<le> n"
proof -
  from assms obtain a b c d e f r ks' where
    s: "s = a # b # c # d # e # f # r" and
    l: "ci 0x50 0x70 a" "ci 0x48 0x68 b" "ci 0x4F 0x6F c" "ci 0x4E 0x6E d" "ci 0x45 0x65 e"
       "chr 0x3A f" and
    ks: "ks = 1 # 1 # 1 # 1 # 1 # 1 # ks'" and
    v: "valid_counts [(isWhiteSpace, Greedy 0 None), (phone_char, Greedy 8 None)] r ks'"
    by (auto simp: labeled_re_def valid_counts_once)
  from v obtain k n where
    "ks' = [k, n]" "k + n \<le> length r" "list_all isWhiteSpace (take k r)"
    "list_all phone_char (take n (drop k r))" "8 \<le> n"
    by (auto simp: valid_counts_Cons)
  moreover from l have "is_label [a, b, c, d, e, f]" by (simp add: is_label_iff)
  moreover from s have "s = [a, b, c, d, e, f] @ r" by simp
  ultimately show ?thesis using ks by blast
qed

lemma labeled_SomeD:
  assumes "match_group1 labeled_re w = Some g"
  shows "labeled_number w g"
proof -
  from match_group1_SomeD [OF assms] obtain i ks where
    i: "i \<le> length w" and v: "valid_counts (atoms labeled_re) (drop i w) ks" and
    g: "g = slice_js (i + sum_list (take 7 ks)) (i + sum_list (take 8 ks)) w"
    by (auto simp: labeled_re_def)
  from labeled_validD [OF v] obtain lab rest k n where
    d: "drop i w = lab @ rest" and lab: "is_label lab" and
    ks: "ks = [1, 1, 1, 1, 1, 1, k, n]" and
    kn: "k + n \<le> length rest" and ws: "list_all isWhiteSpace (take k rest)" and
    ph: "list_all phone_char (take n (drop k rest))" and n: "8 \<le> n"
    by blast
  from lab have len: "length lab = 6" by (auto simp: is_label_iff)
  have "drop (i + 6 + k) w = drop k (drop 6 (drop i w))"
    by (simp add: add.commute add.left_commute)
  also have "\<dots> = drop k rest" using d len by simp
  finally have dr: "drop (i + 6 + k) w = drop k rest" .
  from ks have "sum_list (take 7 ks) = 6 + k" "sum_list (take 8 ks) = 6 + k + n"
    by simp_all
  with g have "g = slice_js (i + (6 + k)) (i + (6 + k + n)) w" by simp
  then have "g = take n (drop (i + 6 + k) w)"
    by (simp add: slice_js_def add.assoc)
  with dr have g': "g = take n (drop k rest)" by simp
  with kn have "length g = n" by simp
  have "rest = take k rest @ take n (drop k rest) @ drop n (drop k rest)"
    by (simp del: drop_drop)
  with g' have "rest = take k rest @ g @ drop n (drop k rest)" by simp
  moreover have "w = take i w @ drop i w" by simp
  ultimately have "w = take i w @ lab @ take k rest @ g @ drop n (drop k rest)"
    using d by metis
  moreover have "list_all isWhiteSpace (take k rest)" by (rule ws)
  moreover have "list_all phone_char g" using ph g' by simp
  moreover have "8 \<le> length g" using n \<open>length g = n\<close> by simp
  ultimately show ?thesis
    unfolding labeled_number_def using lab by blast
qed


lemma bare_atoms_chars: "a \<in> set (atoms bare_re) \<Longrightarrow> fst a c \<Longrightarrow> bare_char c"
  by (auto simp: bare_re_def once_def opt_def chr_def bare_char_def)

lemma bare_SomeD:
  assumes "match_group1 bare_re w = Some g"
  shows "bare_number w g"
proof -
  from match_group1_SomeD [OF assms] obtain i ks where
    i: "i \<le> length w" and v: "valid_counts (atoms bare_re) (drop i w) ks" and
    g: "g = slice_js (i + sum_list (take 0 ks)) (i + sum_list (take 10 ks)) w"
    by (auto simp: bare_re_def)
  from valid_counts_length [OF v] have "length ks = 10" by (simp add: bare_re_def)
  with g have g': "g = take (sum_list ks) (drop i w)" by (simp add: slice_js_def)
  from valid_counts_sum [OF v] have le: "sum_list ks \<le> length (drop i w)" .
  from valid_counts_min [OF v] have five: "5 \<le> sum_list ks" by (simp add: bare_re_def once_def opt_def)
  from le g' have lg: "length g = sum_list ks" by simp
  have chars: "list_all bare_char g"
  proof -
    have "\<forall>c\<in>set g. \<exists>a\<in>set (atoms bare_re). fst a c"
      using valid_counts_chars [OF v] g' by (simp add: list_all_iff)
    then have "\<forall>c\<in>set g. bare_char c" by (blast intro: bare_atoms_chars)
    then show ?thesis by (simp add: list_all_iff)
  qed
  from v obtain c s' where "drop i w = c # s'" "c = 0x2B"
    by (auto simp: bare_re_def valid_counts_once chr_def)
  with g' five have hd: "hd g = 0x2B" by (cases "sum_list ks") auto
  have "w = take i w @ drop i w" by simp
  also have "drop i w = g @ drop (sum_list ks) (drop i w)"
    unfolding g' by (simp del: drop_drop)
  finally have "\<exists>pre post. w = pre @ g @ post" by blast
  with chars hd five lg show ?thesis unfolding bare_number_def by simp
qed


lemma phoneMatch_substring:
  assumes "phoneMatch w = Some g"
  shows "g \<noteq> [] \<and> (\<exists>x post. w = x @ g @ post)"
proof (cases "match_group1 labeled_re w")
  case None
  with assms have "match_group1 bare_re w = Some g" by (simp add: phoneMatch_def)
  from bare_SomeD [OF this] have ex: "\<exists>x post. w = x @ g @ post" and "5 \<le> length g"
    by (simp_all add: bare_number_def)
  from \<open>5 \<le> length g\<close> have "g \<noteq> []" by (cases g) simp_all
  with ex show ?thesis by simp
next
  case (Some g')
  with assms have "match_group1 labeled_re w = Some g" by (simp add: phoneMatch_def)
  from labeled_SomeD [OF this] obtain pre lab ws post where
    w: "w = pre @ lab @ ws @ g @ post" and "8 \<le> length g"
    unfolding labeled_number_def by blast
  from \<open>8 \<le> length g\<close> have "g \<noteq> []" by (cases g) simp_all
  moreover from w have "w = (pre @ lab @ ws) @ g @ post" by simp
  then have "\<exists>x post. w = x @ g @ post" by blast
  ultimately show ?thesis by simp
qed

lemma enrich_chunk_eq:
  assumes "maps chunk = Some m" and "title m = Some t" and "t \<noteq> []"
  shows "enrich_chunk txt chunk =
     (case indexOf txt t of
        None \<Rightarrow> chunk
      | Some i \<Rightarrow>
          (case phoneMatch (slice_js i (i + 400) txt) of
             None \<Rightarrow> chunk
           | Some g \<Rightarrow> chunk\<lparr>maps := Some (m\<lparr>phoneNumber := Some (trim g)\<rparr>)\<rparr>))"
proof (cases "indexOf txt t")
  case None
  with assms show ?thesis by (simp add: enrich_chunk_def)
next
  case (Some i)
  show ?thesis
  proof (cases "phoneMatch (slice_js i (i + 400) txt)")
    case None
    with Some assms show ?thesis by (simp add: enrich_chunk_def)
  next
    case (Some g)
    from phoneMatch_substring [OF this] have "g \<noteq> []" by simp
    with Some \<open>indexOf txt t = Some i\<close> assms show ?thesis by (simp add: enrich_chunk_def)
  qed
qed

section \<open>The enrichment step\<close>

lemma window_substring:
  assumes e: "take n D = x @ g @ post"
  shows "g = slice_js (length x) (length x + length g) D \<and> length x + length g \<le> n \<and>
         length x + length g \<le> length D"
proof -
  have "length (take n D) = length (x @ g @ post)" by (simp only: e)
  then have len: "length x + length g + length post = min n (length D)" by simp
  have "drop (length x) (take n D) = g @ post" by (simp add: e)
  then have "take (length g) (drop (length x) (take n D)) = g" by simp
  moreover have "drop (length x) (take n D) = take (n - length x) (drop (length x) D)"
    by (simp add: drop_take)
  ultimately have "g = take (length g) (take (n - length x) (drop (length x) D))" by simp
  also have "\<dots> = take (length g) (drop (length x) D)"
  proof -
    from len have "length g \<le> n - length x" by (simp add: min_def split: if_splits)
    then show ?thesis by (simp add: min_absorb1)
  qed
  finally have "g = slice_js (length x) (length x + length g) D" by (simp add: slice_js_def)
  moreover from len have "length x + length g \<le> n \<and> length x + length g \<le> length D"
    by (simp add: min_def split: if_splits)
  ultimately show ?thesis by (rule conjI)
qed

lemma slice_js_drop: "slice_js a b (drop i xs) = slice_js (i + a) (i + b) xs"
  by (simp add: slice_js_def add.commute)

lemma window_append:
  "i + 400 \<le> length pre \<Longrightarrow> slice_js i (i + 400) (pre @ suf) = slice_js i (i + 400) pre"
  by (simp add: slice_js_def)



text \<open>
  Claim C2.  When the title is found at \<open>i\<close>, an attached number is the trimmed piece
  of the raw text between two offsets \<open>a < b \<le> i + 400\<close>, and the result does not depend
  on what the text holds from offset \<open>i + 400\<close> on (so in particular not on anything at
  \<open>i + 401\<close> or later).
\<close>

theorem window_bound:
  assumes "maps chunk = Some m" and "title m = Some t" and "indexOf txt t = Some i"
  shows "(enrich_chunk txt chunk = chunk \<or>
          (\<exists>a b. i \<le> a \<and> a < b \<and> b \<le> i + 400 \<and> b \<le> length txt \<and>
             enrich_chunk txt chunk =
               chunk\<lparr>maps := Some (m\<lparr>phoneNumber := Some (trim (slice_js a b txt))\<rparr>)\<rparr>)) \<and>
         (\<forall>pre suf suf'.
            txt = pre @ suf \<and> i + 400 \<le> length pre \<and> indexOf (pre @ suf') t = Some i \<longrightarrow>
            enrich_chunk (pre @ suf') chunk = enrich_chunk txt chunk)"
proof
  let ?w = "slice_js i (i + 400) txt"
  show "enrich_chunk txt chunk = chunk \<or>
          (\<exists>a b. i \<le> a \<and> a < b \<and> b \<le> i + 400 \<and> b \<le> length txt \<and>
             enrich_chunk txt chunk =
               chunk\<lparr>maps := Some (m\<lparr>phoneNumber := Some (trim (slice_js a b txt))\<rparr>)\<rparr>)"
  proof (cases "t = [] \<or> phoneMatch ?w = None")
    case True
    with assms have "enrich_chunk txt chunk = chunk"
      by (auto simp: enrich_chunk_def)
    then show ?thesis ..
  next
    case False
    then obtain g where ne: "t \<noteq> []" and pm: "phoneMatch ?w = Some g" by auto
    from phoneMatch_substring [OF pm] obtain x post where
      g: "g \<noteq> []" and w: "?w = x @ g @ post" by blast
    from w have "take 400 (drop i txt) = x @ g @ post" by (simp add: slice_js_def)
    from window_substring [OF this] have
      sl: "g = slice_js (length x) (length x + length g) (drop i txt)" and
      b1: "length x + length g \<le> 400" and b2: "length x + length g \<le> length (drop i txt)"
      by simp_all
    let ?a = "i + length x" and ?b = "i + (length x + length g)"
    from sl have "g = slice_js ?a ?b txt" by (simp only: slice_js_drop)
    moreover have "enrich_chunk txt chunk =
        chunk\<lparr>maps := Some (m\<lparr>phoneNumber := Some (trim g)\<rparr>)\<rparr>"
      using assms pm ne by (simp add: enrich_chunk_eq)
    ultimately have "enrich_chunk txt chunk =
        chunk\<lparr>maps := Some (m\<lparr>phoneNumber := Some (trim (slice_js ?a ?b txt))\<rparr>)\<rparr>"
      by simp
    moreover from indexOf_SomeD [OF assms(3)] have "i \<le> length txt" by simp
    then have "i \<le> ?a" "?a < ?b" "?b \<le> i + 400" "?b \<le> length txt"
      using g b1 b2 by simp_all
    ultimately show ?thesis by blast
  qed
next
  show "\<forall>pre suf suf'.
          txt = pre @ suf \<and> i + 400 \<le> length pre \<and> indexOf (pre @ suf') t = Some i \<longrightarrow>
          enrich_chunk (pre @ suf') chunk = enrich_chunk txt chunk"
  proof (intro allI impI, elim conjE)
    fix pre suf suf'
    assume tx: "txt = pre @ suf" and len: "i + 400 \<le> length pre"
      and ix: "indexOf (pre @ suf') t = Some i"
    from len have "slice_js i (i + 400) (pre @ suf') = slice_js i (i + 400) (pre @ suf)"
      by (simp only: window_append)
    then show "enrich_chunk (pre @ suf') chunk = enrich_chunk txt chunk"
      using assms ix unfolding tx enrich_chunk_def by simp
  qed
qed

theorem window_bound_witness:
  "maps noodle_chunk = Some noodle_house \<and> title noodle_house = Some (js ''Noodle House'') \<and>
   indexOf (padded_title @ far_number) (js ''Noodle House'') = Some 0 \<and>
   0 + 400 \<le> length padded_title \<and>
   indexOf (padded_title @ []) (js ''Noodle House'') = Some 0 \<and>
   enrich_chunk (padded_title @ []) noodle_chunk = enrich_chunk (padded_title @ far_number) noodle_chunk \<and>
   enrich_chunk (padded_title @ far_number) noodle_chunk = noodle_chunk"
proof -
  have m: "maps noodle_chunk = Some noodle_house"
    by (simp add: noodle_chunk_def)
  have t: "title noodle_house = Some (js ''Noodle House'')"
    by (simp add: noodle_house_def)
  have ix: "indexOf (padded_title @ far_number) (js ''Noodle House'') = Some 0" by code_simp
  have ix': "indexOf (padded_title @ []) (js ''Noodle House'') = Some 0" by code_simp
  have len: "0 + 400 \<le> length padded_title" by (simp add: padded_title_def)
  have un: "enrich_chunk (padded_title @ []) noodle_chunk = noodle_chunk" by code_simp
  from window_bound [OF m t ix] len ix'
  have "enrich_chunk (padded_title @ []) noodle_chunk =
        enrich_chunk (padded_title @ far_number) noodle_chunk"
    by blast
  with un m t ix ix' len show ?thesis by (simp only: simp_thms)
qed

section \<open>Parsing the response text\<close>




lemma fallback_lines: "nonblank_lines fallback_text = [fallback_text]"
  by code_simp

lemma fallback_dishName: "parse_dishName [fallback_text] = fallback_text"
  by code_simp

lemma fallback_description: "parse_description [fallback_text] = generic_description"
  by code_simp

text \<open>
  Claim C4.  When the response text is missing or empty the client goes on with the
  fallback string; the result then has that string as \<open>rawText\<close> and, being its only
  line, as \<open>dishName\<close>, the generic description, and no grounding chunks when the
  service returned none.
\<close>

theorem empty_response_fallback:
  assumes "resp_text r = None \<or> resp_text r = Some []"
  shows "response_text r = fallback_text \<and>
         identifyDishAndFindPlaces (Inr r) = Inr (parse_response r) \<and>
         dishName (parse_response r) = fallback_text \<and>
         description (parse_response r) = generic_description \<and>
         rawText (parse_response r) = fallback_text \<and>
         (if candidateChunks r = None \<or> candidateChunks r = Some []
          then groundingChunks (parse_response r) = [] else True)"
proof -
  from assms have t: "response_text r = fallback_text"
    by (auto simp: response_text_def or_else_def)
  then show ?thesis
    by (auto simp: parse_response_def identifyDishAndFindPlaces_def Let_def fallback_lines
        fallback_dishName fallback_description)
qed

theorem empty_response_fallback_witness:
  "(resp_text empty_response = None \<or> resp_text empty_response = Some []) \<and>
   dishName (parse_response empty_response) = js ''I couldn't identify the dish.'' \<and>
   description (parse_response empty_response) = js ''Delicious culinary creation identified.'' \<and>
   groundingChunks (parse_response empty_response) = []"
proof -
  have h: "resp_text empty_response = None \<or> resp_text empty_response = Some []"
    by (simp add: empty_response_def)
  have c: "candidateChunks empty_response = None \<or> candidateChunks empty_response = Some []"
    by (simp add: empty_response_def)
  from empty_response_fallback [OF h] c h show ?thesis
    by (simp add: fallback_text_def generic_description_def)
qed

section \<open>The state machine\<close>

lemma consistent_initial: "consistent initial_system"
  by (simp add: consistent_def pipeline_def initial_system_def initial_app_def)

lemma step_consistent:
  assumes "consistent s" and "step s ev = Some (s', effs)"
  shows "consistent s'"
proof (cases ev)
  case (Navigate p)
  with assms show ?thesis by (auto simp: step_def consistent_def pipeline_def)
next
  case AuthSuccess
  with assms show ?thesis
    by (auto simp: step_def consistent_def pipeline_def split: if_splits)
next
  case (AuthChanged u)
  with assms show ?thesis by (auto simp: step_def consistent_def pipeline_def)
next
  case Capture
  with assms show ?thesis
    by (auto simp: step_def consistent_def pipeline_def shows_idle_def handleCapture_def Let_def
        split: if_splits option.splits)
next
  case (FileChange f)
  with assms show ?thesis
    by (auto simp: step_def consistent_def pipeline_def shows_idle_def handleFileChange_def
        split: if_splits option.splits)
next
  case (JpegSettled r)
  with assms show ?thesis
    by (auto simp: step_def consistent_def pipeline_def handleFileChange_resume_def
        split: if_splits sum.splits)
next
  case (LocationSettled r)
  with assms show ?thesis
    by (auto simp: step_def consistent_def pipeline_def processImage_located_def
        split: if_splits sum.splits)
next
  case (AnalysisSettled r)
  with assms show ?thesis
    by (auto simp: step_def consistent_def pipeline_def processImage_analyzed_def
        identifyDishAndFindPlaces_def split: if_splits sum.splits)
next
  case (UploadSettled r)
  with assms show ?thesis
    by (auto simp: step_def consistent_def pipeline_def upload_settled_def
        split: if_splits sum.splits)
next
  case Reset
  with assms show ?thesis
    by (auto simp: step_def consistent_def pipeline_def resetApp_def shows_results_def
        shows_error_def split: if_splits)
next
  case (OrderClick i)
  with assms show ?thesis
    by (auto simp: step_def consistent_def pipeline_def order_click_def
        handleWhatsAppClick_def split: if_splits option.splits)
next
  case (DeliverySelect provider now)
  with assms show ?thesis
    by (auto simp: step_def consistent_def pipeline_def handleDeliverySelection_def Let_def
        split: if_splits option.splits sum.splits)
next
  case DeliveryClose
  with assms show ?thesis
    by (auto simp: step_def consistent_def pipeline_def onClose_def split: if_splits)
qed

lemma run_consistent:
  "consistent s \<Longrightarrow> run s evs = Some (s', effs) \<Longrightarrow> consistent s'"
proof (induction evs arbitrary: s effs)
  case Nil
  then show ?case by simp
next
  case (Cons ev evs)
  from Cons.prems(2) obtain s1 effs1 effs2 where
    st: "step s ev = Some (s1, effs1)" and rn: "run s1 evs = Some (s', effs2)"
    by (auto split: option.splits)
  from step_consistent [OF Cons.prems(1) st] have "consistent s1" .
  from Cons.IH [OF this rn] show ?case .
qed

lemma reachable_consistent: "reachable s \<Longrightarrow> consistent s"
  unfolding reachable_def using run_consistent [OF consistent_initial] by blast

lemma reachable_final_state:
  assumes "run initial_system evs \<noteq> None"
  shows "reachable (final_state initial_system evs)"
proof -
  from assms obtain s effs where r: "run initial_system evs = Some (s, effs)" by auto
  then have "final_state initial_system evs = s" by (simp add: final_state_def)
  with r show ?thesis unfolding reachable_def by blast
qed

text \<open>
  Claim C5.  In every state that a sequence of events reaches from the initial state,
  \<open>analysisResult\<close> is set exactly when the state is RESULTS, and \<open>errorMsg\<close> is set
  exactly when the state is ERROR.
\<close>

theorem state_invariant:
  assumes "reachable s"
  shows "((analysisResult (app s) \<noteq> None) = (appState (app s) = RESULTS)) \<and>
         ((errorMsg (app s) \<noteq> None) = (appState (app s) = ERROR))"
  using reachable_consistent [OF assms] by (simp add: consistent_def)

lemma run_append:
  "run s (xs @ ys) =
     (case run s xs of
        None \<Rightarrow> None
      | Some (s1, e1) \<Rightarrow>
          (case run s1 ys of None \<Rightarrow> None | Some (s2, e2) \<Rightarrow> Some (s2, e1 @ e2)))"
  by (induction xs arbitrary: s) (auto split: option.splits)

lemma run_single: "run s [ev] = map_option (\<lambda>(s1, effs). (s1, effs)) (step s ev)"
  by (auto split: option.splits)

lemma reachable_step:
  "reachable s \<Longrightarrow> step s ev = Some (s1, effs) \<Longrightarrow> reachable s1"
proof -
  assume "reachable s" and st: "step s ev = Some (s1, effs)"
  then obtain evs effs0 where "run initial_system evs = Some (s, effs0)"
    unfolding reachable_def by blast
  with st have "run initial_system (evs @ [ev]) = Some (s1, effs0 @ effs)"
    by (simp add: run_append)
  then show "reachable s1" unfolding reachable_def by blast
qed

lemma run_scan_events: "run initial_system scan_events = Some (scanning_system, scan_effects)"
  by code_simp

lemma reachable_scanning: "reachable scanning_system"
  unfolding reachable_def using run_scan_events by blast

lemma parse_ramen: "parse_response ramen_response = ramen_result"
  by code_simp

lemma step_scan_succeeds:
  "step scanning_system (AnalysisSettled (Inr ramen_response)) = Some (results_system, [])"
  by (simp add: step_def scanning_system_def results_system_def identifyDishAndFindPlaces_def
      processImage_analyzed_def parse_ramen)

lemma step_scan_fails:
  "step scanning_system (AnalysisSettled (Inl e)) =
     Some (error_system, [Console analysis_failed_message])"
  by (simp add: step_def scanning_system_def error_system_def identifyDishAndFindPlaces_def
      processImage_analyzed_def error_message_def or_else_def analysis_failed_message_def js_def)

lemma reachable_results: "reachable results_system"
  using reachable_step [OF reachable_scanning step_scan_succeeds] .

lemma reachable_error: "reachable error_system"
  using reachable_step [OF reachable_scanning step_scan_fails] .

lemma shows_results_system: "shows_results (app results_system)"
  by (simp add: shows_results_def renders_main_def results_system_def scanning_system_def
      initial_app_def js_def)

lemma step_order:
  "step results_system (OrderClick 0) = Some (ordering_system, [PreventDefault])"
proof -
  have "order_click (groundingChunks ramen_result ! 0) (app results_system) =
          (app ordering_system, [PreventDefault])"
    by (simp add: order_click_def handleWhatsAppClick_def chunk_phone_def chunk_title_def
        ramen_result_def noodle_house_def ordering_system_def noodle_order_def or_else_def js_def)
  moreover have "analysisResult (app results_system) = Some ramen_result"
    by (simp add: results_system_def)
  moreover have "0 < length (groundingChunks ramen_result)" by (simp add: ramen_result_def)
  moreover have "results_system\<lparr>app := app ordering_system\<rparr> = ordering_system"
    by (simp add: ordering_system_def)
  ultimately show ?thesis using shows_results_system by (simp add: step_def)
qed

lemma renders_main_ordering: "renders_main (app ordering_system)"
  using shows_results_system
  by (simp add: shows_results_def renders_main_def ordering_system_def)

lemma step_dismiss: "step ordering_system DeliveryClose = Some (dismissed_system, [])"
  using renders_main_ordering by (simp add: step_def onClose_def dismissed_system_def)

theorem state_invariant_witness:
  "reachable results_system \<and> appState (app results_system) = RESULTS \<and>
   analysisResult (app results_system) \<noteq> None \<and> errorMsg (app results_system) = None \<and>
   reachable error_system \<and> appState (app error_system) = ERROR \<and>
   errorMsg (app error_system) \<noteq> None \<and> analysisResult (app error_system) = None"
proof -
  have s1: "appState (app results_system) = RESULTS" by (simp add: results_system_def)
  have s2: "appState (app error_system) = ERROR" by (simp add: error_system_def)
  from state_invariant [OF reachable_results] state_invariant [OF reachable_error]
    reachable_results reachable_error s1 s2
  show ?thesis by simp
qed

lemma analysis_failed_message_not_Nil: "analysis_failed_message \<noteq> []"
  by (simp add: analysis_failed_message_def js_def)

text \<open>
  Claim C6.  A failed \<open>generateContent\<close> makes the client throw one error, whose message
  asks for a valid API key, and no result; with it the pending scan moves to ERROR,
  shows that message and has no result.  A response makes the client return the whole
  parsed result, and the scan moves to RESULTS with it.
\<close>

theorem analysis_all_or_nothing:
  assumes "reachable s" and "0 < analyzing s"
  shows "identifyDishAndFindPlaces (Inl e) = Inl (Error analysis_failed_message) \<and>
         identifyDishAndFindPlaces (Inr r) = Inr (parse_response r) \<and>
         (\<exists>s1 effs. step s (AnalysisSettled (Inl e)) = Some (s1, effs) \<and>
            appState (app s1) = ERROR \<and> errorMsg (app s1) = Some analysis_failed_message \<and>
            analysisResult (app s1) = None) \<and>
         (\<exists>s1. step s (AnalysisSettled (Inr r)) = Some (s1, []) \<and>
            appState (app s1) = RESULTS \<and> analysisResult (app s1) = Some (parse_response r) \<and>
            errorMsg (app s1) = None)"
proof -
  from reachable_consistent [OF assms(1)] assms(2) have
    "appState (app s) = ANALYZING" "analysisResult (app s) = None" "errorMsg (app s) = None"
    by (auto simp: consistent_def pipeline_def)
  with assms(2) analysis_failed_message_not_Nil show ?thesis
    by (simp add: step_def identifyDishAndFindPlaces_def processImage_analyzed_def
        error_message_def or_else_def)
qed

theorem analysis_all_or_nothing_witness:
  "reachable scanning_system \<and> 0 < analyzing scanning_system \<and>
   appState (app (final_state scanning_system
      [AnalysisSettled (Inl (Error (js ''fetch failed'')))])) = ERROR \<and>
   errorMsg (app (final_state scanning_system
      [AnalysisSettled (Inl (Error (js ''fetch failed'')))])) = Some analysis_failed_message \<and>
   analysisResult (app (final_state scanning_system
      [AnalysisSettled (Inl (Error (js ''fetch failed'')))])) = None"
proof -
  let ?ev = "AnalysisSettled (Inl (Error (js ''fetch failed'')))"
  have a: "0 < analyzing scanning_system" by (simp add: scanning_system_def)
  from analysis_all_or_nothing [OF reachable_scanning a, of "Error (js ''fetch failed'')"]
  obtain s1 effs where
    "step scanning_system ?ev = Some (s1, effs)" "appState (app s1) = ERROR"
    "errorMsg (app s1) = Some analysis_failed_message" "analysisResult (app s1) = None"
    by blast
  moreover from this have "final_state scanning_system [?ev] = s1"
    by (simp add: final_state_def)
  ultimately show ?thesis using reachable_scanning a by simp
qed



text \<open>
  Claim C9 against the code.  After an order request on the first result the pending
  order is set and the selector is open; dismissing the selector closes it and leaves
  the pending order in place, unlike choosing a provider.
\<close>

theorem close_keeps_pending_order:
  "reachable results_system \<and>
   step results_system (OrderClick 0) = Some (ordering_system, [PreventDefault]) \<and>
   pendingOrder (app ordering_system) = Some noodle_order \<and>
   showDeliveryModal (app ordering_system) \<and>
   step ordering_system DeliveryClose = Some (dismissed_system, []) \<and>
   \<not> showDeliveryModal (app dismissed_system) \<and>
   pendingOrder (app dismissed_system) = Some noodle_order"
  using reachable_results step_order step_dismiss
  by (simp add: ordering_system_def dismissed_system_def)





section \<open>The order link\<close>

lemma hex_digits_unescaped: "list_all (\<lambda>n. uriUnescaped (hex_digit n)) [0..<16]"
  by code_simp

lemma hex_digit_unescaped: "n < 16 \<Longrightarrow> uriUnescaped (hex_digit n)"
  using hex_digits_unescaped by (simp add: list_all_iff)

lemma percent_uri: "octet < 256 \<Longrightarrow> list_all uri_char (percent octet)"
proof -
  assume "octet < 256"
  then have "octet div 16 < 16" "octet mod 16 < 16" by simp_all
  then show ?thesis by (simp add: percent_def uri_char_def hex_digit_unescaped)
qed

lemma utf8_octets: "cp < 0x110000 \<Longrightarrow> \<forall>octet\<in>set (utf8 cp). octet < 256"
  by (auto simp: utf8_def)

lemma escape_uri: "cp < 0x110000 \<Longrightarrow> list_all uri_char (escape cp)"
  using utf8_octets [of cp] percent_uri
  by (auto simp: escape_def list_all_iff)

lemma unat_code_unit: "unat (c :: code_unit) < 0x10000"
proof -
  have "unat c < 2 ^ LENGTH(16)" by (rule unsigned_less)
  then show ?thesis by simp
qed

lemma surrogate_pair_bound:
  assumes "isHighSurrogate c" and "isLowSurrogate d"
  shows "0x10000 + (unat c - 0xD800) * 0x400 + (unat d - 0xDC00) < (0x110000 :: nat)"
proof -
  from assms have "unat c \<le> 0xDBFF" "unat d \<le> 0xDFFF"
    by (simp_all add: isHighSurrogate_def isLowSurrogate_def word_le_nat_alt)
  then show ?thesis by simp
qed

lemma encode_uri: "encodeURIComponent s = Some e \<Longrightarrow> list_all uri_char e"
proof (induction s arbitrary: e rule: encodeURIComponent.induct)
  case 1
  then show ?case by simp
next
  case (2 c cs)
  show ?case
  proof (cases "uriUnescaped c")
    case True
    with "2.prems" obtain e' where "encodeURIComponent cs = Some e'" "e = c # e'" by auto
    with "2.IH"(1) [OF True] True show ?thesis by (simp add: uri_char_def)
  next
    case False
    note nu = this
    show ?thesis
    proof (cases "isLowSurrogate c")
      case True
      with nu "2.prems" show ?thesis by simp
    next
      case False
      note nl = this
      show ?thesis
      proof (cases "isHighSurrogate c")
        case True
        with nu nl "2.prems" obtain d ds e' where
          cs: "cs = d # ds" and d: "isLowSurrogate d" and
          e': "encodeURIComponent ds = Some e'" and
          e: "e = escape (0x10000 + (unat c - 0xD800) * 0x400 + (unat d - 0xDC00)) @ e'"
          by (auto split: list.splits if_splits)
        from "2.IH"(2) [OF nu nl True cs d e'] have "list_all uri_char e'" .
        moreover have
          "list_all uri_char (escape (0x10000 + (unat c - 0xD800) * 0x400 + (unat d - 0xDC00)))"
          using surrogate_pair_bound [OF True d] by (rule escape_uri)
        ultimately show ?thesis using e by simp
      next
        case False
        with nu nl "2.prems" obtain e' where
          e': "encodeURIComponent cs = Some e'" and e: "e = escape (unat c) @ e'"
          by auto
        from "2.IH"(3) [OF nu nl False e'] have "list_all uri_char e'" .
        moreover have "list_all uri_char (escape (unat c))"
          using unat_code_unit [of c] by (intro escape_uri) simp
        ultimately show ?thesis using e by simp
      qed
    qed
  qed
qed

text \<open>
  Claim C8.  When an order is placed, the window opened is
  \<open>https://wa.me/\<close>, the digits of the stored phone number, \<open>?text=\<close> and the encoded
  message: the phone part has digits only, and the text part is
  \<open>encodeURIComponent\<close> of the composed message, made of unreserved characters and
  percent escapes.
\<close>

theorem deep_link_form:
  assumes "pendingOrder a = Some po"
    and "handleDeliverySelection u now provider a = Inr (a1, effs)"
  shows "\<exists>ld enc.
      effs = [TrackLead ld,
              WindowOpen (js ''https://wa.me/'' @ cleanPhone (phone po) @ js ''?text='' @ enc)
                         (js ''_blank'')] \<and>
      cleanPhone (phone po) = filter isDigit (phone po) \<and>
      list_all isDigit (cleanPhone (phone po)) \<and>
      encodeURIComponent
        (order_message po
           (case analysisResult a of None \<Rightarrow> unknown_dish
            | Some r \<Rightarrow> or_else (dishName r) unknown_dish)
           provider (uploadedImageUrl a)) = Some enc \<and>
      list_all uri_char enc \<and> restaurantPhone ld = cleanPhone (phone po) \<and>
      pendingOrder a1 = None \<and> \<not> showDeliveryModal a1"
proof -
  let ?msg = "order_message po
           (case analysisResult a of None \<Rightarrow> unknown_dish
            | Some r \<Rightarrow> or_else (dishName r) unknown_dish)
           provider (uploadedImageUrl a)"
  from assms obtain enc where enc: "encodeURIComponent ?msg = Some enc"
    by (auto simp: handleDeliverySelection_def Let_def split: option.splits)
  from encode_uri [OF enc] have "list_all uri_char enc" .
  moreover have "list_all isDigit (cleanPhone (phone po))"
    by (simp add: cleanPhone_def list_all_iff)
  ultimately show ?thesis
    using assms enc by (auto simp: handleDeliverySelection_def Let_def cleanPhone_def)
qed

lemma noodle_message:
  "encodeURIComponent (order_message noodle_order (js ''Spicy Tonkotsu Ramen'') (js ''Talabat'') None) =
     Some (js ''Hello%2C%20I%20found%20Noodle%20House%20on%20DishOut.%20I'd%20like%20to%20order%20Spicy%20Tonkotsu%20Ramen%20via%20Talabat.'')"
  by code_simp

theorem deep_link_form_witness:
  "pendingOrder (app ordering_system) = Some noodle_order \<and>
   (case handleDeliverySelection (Some diner) (js ''2026-01-01T12:00:00.000Z'') (js ''Talabat'')
           (app ordering_system) of
      Inl e \<Rightarrow> False
    | Inr (a1, effs) \<Rightarrow>
        effs ! 1 = WindowOpen (js ''https://wa.me/971501234567?text=Hello%2C%20I%20found%20Noodle%20House%20on%20DishOut.%20I'd%20like%20to%20order%20Spicy%20Tonkotsu%20Ramen%20via%20Talabat.'') (js ''_blank'') \<and>
        pendingOrder a1 = None)"
proof -
  have p: "pendingOrder (app ordering_system) = Some noodle_order"
    by (simp add: ordering_system_def)
  have d: "analysisResult (app ordering_system) = Some ramen_result"
    "uploadedImageUrl (app ordering_system) = None"
    by (simp_all add: ordering_system_def results_system_def scanning_system_def initial_app_def)
  have dn: "or_else (dishName ramen_result) unknown_dish = js ''Spicy Tonkotsu Ramen''"
    by (simp add: ramen_result_def or_else_def js_def)
  have ph: "cleanPhone (phone noodle_order) = js ''971501234567''" by code_simp
  obtain a1 effs where
    h: "handleDeliverySelection (Some diner) (js ''2026-01-01T12:00:00.000Z'') (js ''Talabat'')
           (app ordering_system) = Inr (a1, effs)"
    using p d dn noodle_message by (simp add: handleDeliverySelection_def Let_def)
  from deep_link_form [OF p h] obtain ld enc where
    "effs = [TrackLead ld,
              WindowOpen (js ''https://wa.me/'' @ cleanPhone (phone noodle_order) @ js ''?text='' @ enc)
                         (js ''_blank'')]"
    "encodeURIComponent
        (order_message noodle_order
           (case analysisResult (app ordering_system) of None \<Rightarrow> unknown_dish
            | Some r \<Rightarrow> or_else (dishName r) unknown_dish)
           (js ''Talabat'') (uploadedImageUrl (app ordering_system))) = Some enc"
    "pendingOrder a1 = None"
    by blast
  then show ?thesis using p h d dn noodle_message ph by (simp add: js_def)
qed

end
